theory Spec2Isabelle
  imports Main
begin

section \<open>Strings of the source language\<close>

text \<open>
  The analysed program is Python; its strings are sequences of code points.  The
  embedding uses \<^typ>\<open>string\<close>, so a character is a code point below 256 (the Latin-1
  range), and the character classes below are Python's classes restricted to that range.
\<close>

definition code :: "char \<Rightarrow> nat" where
  "code c = of_char c"

text \<open>\<open>str.isspace\<close>, which is also what \<open>str.strip()\<close> removes and what \<open>\s\<close> matches.\<close>

definition is_space :: "char \<Rightarrow> bool" where
  "is_space c =
     (let n = code c
      in (9 \<le> n \<and> n \<le> 13) \<or> (28 \<le> n \<and> n \<le> 32) \<or> n = 133 \<or> n = 160)"

text \<open>\<open>\w\<close> on a \<open>str\<close> pattern: alphanumeric (\<open>str.isalnum\<close>) or the underscore.\<close>

definition is_word :: "char \<Rightarrow> bool" where
  "is_word c =
     (let n = code c
      in (48 \<le> n \<and> n \<le> 57) \<or> (65 \<le> n \<and> n \<le> 90) \<or> n = 95 \<or> (97 \<le> n \<and> n \<le> 122)
         \<or> n = 170 \<or> n = 178 \<or> n = 179 \<or> n = 181 \<or> n = 185 \<or> n = 186
         \<or> (188 \<le> n \<and> n \<le> 190) \<or> (192 \<le> n \<and> n \<le> 214) \<or> (216 \<le> n \<and> n \<le> 246)
         \<or> (248 \<le> n \<and> n \<le> 255))"

definition is_upper :: "char \<Rightarrow> bool" where
  "is_upper c =
     (let n = code c
      in (65 \<le> n \<and> n \<le> 90) \<or> (192 \<le> n \<and> n \<le> 214) \<or> (216 \<le> n \<and> n \<le> 222))"

text \<open>
  \<open>str.lower()\<close> on one character: an upper-case letter of the range moves up by 32,
  which sets bit 5 (it is clear in every upper-case letter of the range).
\<close>

definition lower_char :: "char \<Rightarrow> char" where
  "lower_char c =
     (if is_upper c
      then (case c of Char b0 b1 b2 b3 b4 b5 b6 b7 \<Rightarrow> Char b0 b1 b2 b3 b4 True b6 b7)
      else c)"

definition py_lower :: "string \<Rightarrow> string" where
  "py_lower s = map lower_char s"

text \<open>\<open>str.strip()\<close> with no argument.\<close>

definition py_strip :: "string \<Rightarrow> string" where
  "py_strip s = rev (dropWhile is_space (rev (dropWhile is_space s)))"

text \<open>\<open>str.split(sep)\<close> for a separator of one character: one piece more than separators.\<close>

fun py_split :: "char \<Rightarrow> string \<Rightarrow> string list" where
  "py_split c [] = [[]]"
| "py_split c (x # xs) =
     (if x = c then [] # py_split c xs
      else (case py_split c xs of
              w # ws \<Rightarrow> (x # w) # ws
            | [] \<Rightarrow> [[x]]))"

section \<open>Regular expressions as the \<open>re\<close> module matches them\<close>

text \<open>
  The patterns of the program use: literal text, the classes \<open>.\<close>, \<open>\s\<close>, \<open>\w\<close>, the
  quantifiers \<open>*\<close>, \<open>+\<close> and \<open>*?\<close> on one class or one literal character, an optional
  group, capturing groups, alternation, \<open>$\<close> and \<open>\b\<close>.  The datatype has these and no more.
\<close>

datatype atom = Chr char | Dot | Space | Wordc

datatype regex =
    Lit string
  | One atom
  | Star atom
  | Plus atom
  | LazyStar atom
  | Opt regex
  | Group nat regex
  | Seq regex regex
  | Alt regex regex
  | Eol
  | Bound

text \<open>
  One character against one atom.  With \<open>re.IGNORECASE\<close> a literal character matches its
  other case as well; the literals of the program are ASCII letters, whose only case
  variants below 256 are the ASCII ones.  \<open>.\<close> matches anything but a newline.
\<close>

fun atom_ok :: "bool \<Rightarrow> atom \<Rightarrow> char \<Rightarrow> bool" where
  "atom_ok ic (Chr c) x = (if ic then lower_char x = lower_char c else x = c)"
| "atom_ok ic Dot x = (x \<noteq> CHR 0x0A)"
| "atom_ok ic Space x = is_space x"
| "atom_ok ic Wordc x = is_word x"

text \<open>
  The matcher is a backtracking one, as \<open>re\<close>'s is: it walks the pattern with the captures
  made so far, the character before the current position (for \<open>\b\<close>) and the text still
  to read, and hands them to a continuation that matches the rest of the pattern.  The
  first alternative whose continuation succeeds is the match.
\<close>

type_synonym caps = "(nat \<times> string) list"
type_synonym mstate = "caps \<times> char option \<times> string"
type_synonym cont = "caps \<Rightarrow> char option \<Rightarrow> string \<Rightarrow> mstate option"

fun lit :: "bool \<Rightarrow> string \<Rightarrow> caps \<Rightarrow> char option \<Rightarrow> string \<Rightarrow> cont \<Rightarrow> mstate option" where
  "lit ic [] g p s k = k g p s"
| "lit ic (c # cs) g p [] k = None"
| "lit ic (c # cs) g p (x # xs) k =
     (if atom_ok ic (Chr c) x then lit ic cs g (Some x) xs k else None)"

text \<open>Greedy repetition: as many as possible first, then one fewer, down to none.\<close>

fun greedy :: "bool \<Rightarrow> atom \<Rightarrow> caps \<Rightarrow> char option \<Rightarrow> string \<Rightarrow> cont \<Rightarrow> mstate option" where
  "greedy ic a g p [] k = k g p []"
| "greedy ic a g p (x # xs) k =
     (if atom_ok ic a x
      then (case greedy ic a g (Some x) xs k of
              Some r \<Rightarrow> Some r
            | None \<Rightarrow> k g p (x # xs))
      else k g p (x # xs))"

text \<open>Lazy repetition: none first, then one more at a time.\<close>

fun lazy :: "bool \<Rightarrow> atom \<Rightarrow> caps \<Rightarrow> char option \<Rightarrow> string \<Rightarrow> cont \<Rightarrow> mstate option" where
  "lazy ic a g p [] k = k g p []"
| "lazy ic a g p (x # xs) k =
     (case k g p (x # xs) of
        Some r \<Rightarrow> Some r
      | None \<Rightarrow> (if atom_ok ic a x then lazy ic a g (Some x) xs k else None))"

definition word_before :: "char option \<Rightarrow> bool" where
  "word_before p = (case p of None \<Rightarrow> False | Some c \<Rightarrow> is_word c)"

definition word_after :: "string \<Rightarrow> bool" where
  "word_after s = (case s of [] \<Rightarrow> False | c # _ \<Rightarrow> is_word c)"

primrec rmatch :: "bool \<Rightarrow> regex \<Rightarrow> caps \<Rightarrow> char option \<Rightarrow> string \<Rightarrow> cont \<Rightarrow> mstate option" where
  "rmatch ic (Lit w) g p s k = lit ic w g p s k"
| "rmatch ic (One a) g p s k =
     (case s of [] \<Rightarrow> None | x # xs \<Rightarrow> if atom_ok ic a x then k g (Some x) xs else None)"
| "rmatch ic (Star a) g p s k = greedy ic a g p s k"
| "rmatch ic (Plus a) g p s k =
     (case s of [] \<Rightarrow> None | x # xs \<Rightarrow> if atom_ok ic a x then greedy ic a g (Some x) xs k else None)"
| "rmatch ic (LazyStar a) g p s k = lazy ic a g p s k"
| "rmatch ic (Opt r) g p s k =
     (case rmatch ic r g p s k of Some res \<Rightarrow> Some res | None \<Rightarrow> k g p s)"
| "rmatch ic (Group n r) g p s k =
     rmatch ic r g p s (\<lambda>g' p' s'. k ((n, take (length s - length s') s) # g') p' s')"
| "rmatch ic (Seq r1 r2) g p s k =
     rmatch ic r1 g p s (\<lambda>g' p' s'. rmatch ic r2 g' p' s' k)"
| "rmatch ic (Alt r1 r2) g p s k =
     (case rmatch ic r1 g p s k of Some res \<Rightarrow> Some res | None \<Rightarrow> rmatch ic r2 g p s k)"
| "rmatch ic Eol g p s k = (if s = [] \<or> s = [CHR 0x0A] then k g p s else None)"
| "rmatch ic Bound g p s k = (if word_before p \<noteq> word_after s then k g p s else None)"

text \<open>A match attempt at one position: the pattern, then nothing more to satisfy.\<close>

definition match_here :: "bool \<Rightarrow> regex \<Rightarrow> char option \<Rightarrow> string \<Rightarrow> mstate option" where
  "match_here ic r p s = rmatch ic r [] p s (\<lambda>g p' s'. Some (g, p', s'))"

text \<open>
  The text of group \<open>n\<close>; a group that took no part in the match reads as the empty
  string, as in the tuples of \<open>findall\<close>.
\<close>

definition group_text :: "caps \<Rightarrow> nat \<Rightarrow> string" where
  "group_text g n = (case map_of g n of None \<Rightarrow> [] | Some t \<Rightarrow> t)"

text \<open>The texts of groups 1 to \<open>n\<close>: a tuple of \<open>findall\<close>, or \<open>match.groups()\<close>.\<close>

definition groups_of :: "nat \<Rightarrow> caps \<Rightarrow> string list" where
  "groups_of n g = map (group_text g) [1..<Suc n]"

text \<open>
  The scan behind \<open>pattern.findall(s)\<close>: the matches from left to right, each search
  starting where the previous match ended.  After a match that read nothing the scan moves
  on by one character; no pattern of this program matches the empty string.
\<close>

function find_matches :: "bool \<Rightarrow> regex \<Rightarrow> char option \<Rightarrow> string \<Rightarrow> caps list" where
  "find_matches ic r p s =
     (case match_here ic r p s of
        Some (g, p', s') \<Rightarrow>
          (if length s' < length s
           then g # find_matches ic r p' s'
           else g # (case s of [] \<Rightarrow> [] | x # xs \<Rightarrow> find_matches ic r (Some x) xs))
      | None \<Rightarrow> (case s of [] \<Rightarrow> [] | x # xs \<Rightarrow> find_matches ic r (Some x) xs))"
  by pat_completeness auto
termination
  by (relation "measure (\<lambda>(ic, r, p, s). length s)") auto

text \<open>\<open>findall\<close> for a pattern with one group gives the texts of that group.\<close>

definition findall1 :: "bool \<Rightarrow> regex \<Rightarrow> string \<Rightarrow> string list" where
  "findall1 ic r s = map (\<lambda>g. group_text g 1) (find_matches ic r None s)"

text \<open>\<open>findall\<close> for a pattern with \<open>n > 1\<close> groups gives one tuple of \<open>n\<close> texts per match.\<close>

definition findall_tuples :: "bool \<Rightarrow> regex \<Rightarrow> nat \<Rightarrow> string \<Rightarrow> string list list" where
  "findall_tuples ic r n s = map (groups_of n) (find_matches ic r None s)"

text \<open>\<open>re.match(pattern, s)\<close>: a match at the start of \<open>s\<close> only; its groups when there is one.\<close>

definition re_match :: "bool \<Rightarrow> regex \<Rightarrow> nat \<Rightarrow> string \<Rightarrow> string list option" where
  "re_match ic r n s =
     (case match_here ic r None s of
        None \<Rightarrow> None
      | Some (g, p', s') \<Rightarrow> Some (groups_of n g))"

fun cat :: "regex list \<Rightarrow> regex" where
  "cat [] = Lit []"
| "cat [r] = r"
| "cat (r # rs) = Seq r (cat rs)"

section \<open>The mapping table\<close>

text \<open>A dictionary literal keeps the order of its keys: an association list.\<close>

definition CIM_FIELD_MAPPINGS :: "(string \<times> (string \<times> string) list) list" where
  "CIM_FIELD_MAPPINGS =
    [(''common'',
        [(''src_ip'', ''source''), (''dst_ip'', ''destination''), (''user'', ''user''),
         (''host'', ''host''), (''sourcetype'', ''sourcetype''), (''index'', ''index''),
         (''source'', ''source''), (''event_id'', ''event_id''), (''action'', ''action''),
         (''status'', ''status''), (''uri'', ''uri''), (''method'', ''method'')]),
     (''crowdstrike'',
        [(''device_id'', ''device''), (''process_name'', ''process''), (''user_id'', ''user''),
         (''alert_id'', ''alert_id'')]),
     (''bluecoat'',
        [(''url'', ''uri''), (''response_code'', ''status''), (''action_taken'', ''action''),
         (''bytes_transferred'', ''bytes'')]),
     (''checkpoint'',
        [(''policy_name'', ''policy''), (''rule_number'', ''rule_number''),
         (''source_zone'', ''source_zone''), (''destination_zone'', ''destination_zone'')]),
     (''windows'',
        [(''win_logon_id'', ''logon_id''), (''win_event_code'', ''event_code''),
         (''win_account_name'', ''account''), (''win_process_id'', ''process_id'')]),
     (''aws'',
        [(''aws_account_id'', ''account_id''), (''aws_region'', ''region''),
         (''aws_service'', ''service''), (''aws_event_type'', ''event_type'')]),
     (''gcp'',
        [(''gcp_project_id'', ''project_id''), (''gcp_region'', ''region''),
         (''gcp_service'', ''service''), (''gcp_event_type'', ''event_type'')])]"

text \<open>
  A Python set is modelled by a list without duplicates, in the order of first insertion.
  The order in which Python iterates over a set is not fixed by the program; no theorem
  below depends on the order chosen here.
\<close>

definition set_add :: "'a \<Rightarrow> 'a list \<Rightarrow> 'a list" where
  "set_add x xs = (if x \<in> set xs then xs else xs @ [x])"

definition set_update :: "'a list \<Rightarrow> 'a list \<Rightarrow> 'a list" where
  "set_update xs ys = fold set_add ys xs"

text \<open>The module-level loop that flattens the targets of every source into one set.\<close>

definition ALL_CIM_FIELDS :: "string list" where
  "ALL_CIM_FIELDS = fold (\<lambda>(source, source_fields) acc. set_update acc (map snd source_fields))
                         CIM_FIELD_MAPPINGS []"

section \<open>The patterns\<close>

text \<open>\<^verbatim>\<open>rename\s+(.*?)\s+as\s+(.*?)($|\s|$)\<close>\<close>

definition rename_pattern :: regex where
  "rename_pattern =
     cat [Lit ''rename'', Plus Space, Group 1 (LazyStar Dot), Plus Space, Lit ''as'', Plus Space,
          Group 2 (LazyStar Dot), Group 3 (Alt Eol (Alt (One Space) Eol))]"

text \<open>\<^verbatim>\<open>eval\s+(.*?)\s*=\<close>\<close>

definition eval_pattern :: regex where
  "eval_pattern = cat [Lit ''eval'', Plus Space, Group 1 (LazyStar Dot), Star Space, Lit ''='']"

text \<open>\<^verbatim>\<open>stats\s+(.*?)\s+by\s+(.*)\<close>\<close>

definition stats_pattern :: regex where
  "stats_pattern =
     cat [Lit ''stats'', Plus Space, Group 1 (LazyStar Dot), Plus Space, Lit ''by'', Plus Space,
          Group 2 (Star Dot)]"

text \<open>\<^verbatim>\<open>lookup\s+(.*?)\s+(.*?)\s+OUTPUT(?:NEW)?\s+(.*)\<close>\<close>

definition lookup_pattern :: regex where
  "lookup_pattern =
     cat [Lit ''lookup'', Plus Space, Group 1 (LazyStar Dot), Plus Space, Group 2 (LazyStar Dot),
          Plus Space, Lit ''OUTPUT'', Opt (Lit ''NEW''), Plus Space, Group 3 (Star Dot)]"

text \<open>\<^verbatim>\<open>\s*\w+\((.*?)\)\s*as\s*(\w+)\<close>\<close>

definition agg_alias_pattern :: regex where
  "agg_alias_pattern =
     cat [Star Space, Plus Wordc, Lit ''('', Group 1 (LazyStar Dot), Lit '')'', Star Space,
          Lit ''as'', Star Space, Group 2 (Plus Wordc)]"

text \<open>\<^verbatim>\<open>\w+\((.*?)\)\<close>\<close>

definition agg_inner_pattern :: regex where
  "agg_inner_pattern = cat [Plus Wordc, Lit ''('', Group 1 (LazyStar Dot), Lit '')'']"

text \<open>\<^verbatim>\<open>(\w+)\<close>\<close>

definition cmd_type_pattern :: regex where
  "cmd_type_pattern = Group 1 (Plus Wordc)"

text \<open>\<^verbatim>\<open>\b(\w+)=\<close>\<close>

definition key_pattern :: regex where
  "key_pattern = cat [Bound, Group 1 (Plus Wordc), Lit ''='']"

text \<open>\<^verbatim>\<open>\b(\w+)\b\<close>\<close>

definition bare_word_pattern :: regex where
  "bare_word_pattern = cat [Bound, Group 1 (Plus Wordc), Bound]"

section \<open>The extractors\<close>

text \<open>
  Unpacking a tuple into names raises \<open>ValueError\<close> when the lengths differ.  It is the
  only operation of the extractors that can raise.
\<close>

datatype error = ValueError

fun unpack2 :: "'a list \<Rightarrow> error + ('a \<times> 'a)" where
  "unpack2 [a, b] = Inr (a, b)"
| "unpack2 _ = Inl ValueError"

fun unpack3 :: "'a list \<Rightarrow> error + ('a \<times> 'a \<times> 'a)" where
  "unpack3 [a, b, c] = Inr (a, b, c)"
| "unpack3 _ = Inl ValueError"

text \<open>The loop of \<open>extract_fields_from_rename\<close> over the matches, \<open>fields\<close> threaded through.\<close>

fun rename_loop :: "string list list \<Rightarrow> (string \<times> string) list \<Rightarrow> error + (string \<times> string) list" where
  "rename_loop [] fields = Inr fields"
| "rename_loop (m # ms) fields =
     (case unpack3 m of
        Inl e \<Rightarrow> Inl e
      | Inr (old_field, new_field, u) \<Rightarrow>
          rename_loop ms (fields @ [(py_strip old_field, py_strip new_field)]))"

definition extract_fields_from_rename :: "string \<Rightarrow> error + (string \<times> string) list" where
  "extract_fields_from_rename command =
     rename_loop (findall_tuples True rename_pattern 3 command) []"

definition extract_fields_from_eval :: "string \<Rightarrow> string list" where
  "extract_fields_from_eval command = map py_strip (findall1 True eval_pattern command)"

text \<open>The loop over the comma-separated aggregation terms of one \<open>stats\<close> match.\<close>

fun agg_loop :: "string list \<Rightarrow> string list \<Rightarrow> error + string list" where
  "agg_loop [] fields = Inr fields"
| "agg_loop (part # parts) fields =
     (case re_match True agg_alias_pattern 2 (py_strip part) of
        Some gs \<Rightarrow>
          (case unpack2 gs of
             Inl e \<Rightarrow> Inl e
           | Inr (u, alias) \<Rightarrow> agg_loop parts (fields @ [py_strip alias]))
      | None \<Rightarrow>
          (case findall1 False agg_inner_pattern part of
             [] \<Rightarrow> agg_loop parts fields
           | inner # _ \<Rightarrow> agg_loop parts (fields @ [py_strip inner])))"

fun stats_loop :: "string list list \<Rightarrow> string list \<Rightarrow> error + string list" where
  "stats_loop [] fields = Inr fields"
| "stats_loop (m # ms) fields =
     (case unpack2 m of
        Inl e \<Rightarrow> Inl e
      | Inr (agg_fields, by_fields) \<Rightarrow>
          (case agg_loop (py_split (CHR '','') agg_fields) fields of
             Inl e \<Rightarrow> Inl e
           | Inr fields' \<Rightarrow>
               stats_loop ms (fields' @ map py_strip (py_split (CHR '','') by_fields))))"

definition extract_fields_from_stats :: "string \<Rightarrow> error + string list" where
  "extract_fields_from_stats command =
     stats_loop (findall_tuples True stats_pattern 2 command) []"

fun lookup_loop :: "string list list \<Rightarrow> string list \<Rightarrow> error + string list" where
  "lookup_loop [] fields = Inr fields"
| "lookup_loop (m # ms) fields =
     (case unpack3 m of
        Inl e \<Rightarrow> Inl e
      | Inr (lookup_table, input_fields, output_fields) \<Rightarrow>
          lookup_loop ms
            (fields @ (map py_strip (py_split (CHR '','') input_fields)
                       @ map py_strip (py_split (CHR '','') output_fields))))"

definition extract_fields_from_lookup :: "string \<Rightarrow> error + string list" where
  "extract_fields_from_lookup command =
     lookup_loop (findall_tuples True lookup_pattern 3 command) []"

section \<open>The analysis of one query\<close>

text \<open>
  \<open>fields_usage\<close> is a \<open>defaultdict(set)\<close> that the program indexes with the three keys
  \<open>'renamed'\<close>, \<open>'created'\<close> and \<open>'used'\<close> only: a record of three sets.
\<close>

record usage =
  used :: "string list"
  created :: "string list"
  renamed :: "string list"

definition empty_usage :: usage where
  "empty_usage = \<lparr>used = [], created = [], renamed = []\<rparr>"

definition commands :: "string \<Rightarrow> string list" where
  "commands search_query =
     map py_strip (filter (\<lambda>cmd. py_strip cmd \<noteq> []) (py_split (CHR ''|'') search_query))"

definition fallback_verbs :: "string list" where
  "fallback_verbs = [''search'', ''where'', ''table'', ''fields'', ''fillnull'', ''coalesce'']"

text \<open>One pass of the loop body of \<open>parse_search_query\<close>.\<close>

definition parse_command :: "string \<Rightarrow> usage \<Rightarrow> error + usage" where
  "parse_command cmd fields_usage =
     (case re_match False cmd_type_pattern 1 cmd of
        None \<Rightarrow> Inr fields_usage
      | Some gs \<Rightarrow>
          (let cmd_type = py_lower (hd gs) in
           if cmd_type = ''rename'' then
             (case extract_fields_from_rename cmd of
                Inl e \<Rightarrow> Inl e
              | Inr renamed_fields \<Rightarrow>
                  Inr (fields_usage\<lparr>renamed := set_update (renamed fields_usage) (map snd renamed_fields)\<rparr>))
           else if cmd_type = ''eval'' then
             Inr (fields_usage\<lparr>created := set_update (created fields_usage) (extract_fields_from_eval cmd)\<rparr>)
           else if cmd_type = ''stats'' then
             (case extract_fields_from_stats cmd of
                Inl e \<Rightarrow> Inl e
              | Inr stats_fields \<Rightarrow>
                  Inr (fields_usage\<lparr>used := set_update (used fields_usage) stats_fields\<rparr>))
           else if cmd_type = ''lookup'' then
             (case extract_fields_from_lookup cmd of
                Inl e \<Rightarrow> Inl e
              | Inr lookup_fields \<Rightarrow>
                  Inr (fields_usage\<lparr>used := set_update (used fields_usage) lookup_fields\<rparr>))
           else if cmd_type \<in> set fallback_verbs then
             (let used_fields = findall1 False key_pattern cmd;
                  used_fields = (if used_fields = [] then findall1 False bare_word_pattern cmd
                                 else used_fields)
              in Inr (fields_usage\<lparr>used := set_update (used fields_usage) used_fields\<rparr>))
           else Inr fields_usage))"

fun parse_loop :: "string list \<Rightarrow> usage \<Rightarrow> error + usage" where
  "parse_loop [] fields_usage = Inr fields_usage"
| "parse_loop (cmd # cmds) fields_usage =
     (case parse_command cmd fields_usage of
        Inl e \<Rightarrow> Inl e
      | Inr fields_usage' \<Rightarrow> parse_loop cmds fields_usage')"

definition parse_search_query :: "string \<Rightarrow> error + usage" where
  "parse_search_query search_query = parse_loop (commands search_query) empty_usage"

section \<open>The compliance check\<close>

record violation =
  field :: string
  issue :: string
  suggestion :: string

definition all_fields_of :: "usage \<Rightarrow> string list" where
  "all_fields_of fields_usage =
     set_update (set_update (set_update [] (renamed fields_usage)) (created fields_usage))
       (used fields_usage)"

text \<open>The inner loop: is the field a key of some source's mapping?\<close>

fun mapped_in :: "(string \<times> (string \<times> string) list) list \<Rightarrow> string \<Rightarrow> bool" where
  "mapped_in [] f = False"
| "mapped_in ((source, mappings) # rest) f =
     (if f \<in> set (map fst mappings) then True else mapped_in rest f)"

fun check_loop :: "string list \<Rightarrow> violation list \<Rightarrow> violation list" where
  "check_loop [] violations = violations"
| "check_loop (f # fs) violations =
     (if f \<notin> set ALL_CIM_FIELDS
      then (if \<not> mapped_in CIM_FIELD_MAPPINGS f
            then check_loop fs
                   (violations @
                      [\<lparr>field = f, issue = ''Field is not CIM-compliant.'',
                        suggestion = ''Map the field to a CIM-compliant field or use field aliases to conform to CIM.''\<rparr>])
            else check_loop fs violations)
      else check_loop fs violations)"

definition check_cim_compliance :: "string \<Rightarrow> string \<Rightarrow> error + violation list" where
  "check_cim_compliance search_name search_query =
     (case parse_search_query search_query of
        Inl e \<Rightarrow> Inl e
      | Inr fields_usage \<Rightarrow> Inr (check_loop (all_fields_of fields_usage) []))"

section \<open>Alias suggestions\<close>

text \<open>\<open>aliases[cim_field].append(custom_field)\<close> on a \<open>defaultdict(list)\<close>, keys in insertion order.\<close>

fun dd_append :: "'k \<Rightarrow> 'v \<Rightarrow> ('k \<times> 'v list) list \<Rightarrow> ('k \<times> 'v list) list" where
  "dd_append key v [] = [(key, [v])]"
| "dd_append key v ((k, vs) # rest) =
     (if k = key then (k, vs @ [v]) # rest else (k, vs) # dd_append key v rest)"

definition get_field_aliases :: "(string \<times> string list) list" where
  "get_field_aliases =
     fold (\<lambda>(source, mappings) aliases.
             fold (\<lambda>(custom_field, cim_field) aliases. dd_append cim_field custom_field aliases)
                  mappings aliases)
          CIM_FIELD_MAPPINGS []"

definition suggest_alias :: "string \<Rightarrow> string list" where
  "suggest_alias f =
     concat (map (\<lambda>(cim_field, custom_fields).
                    if py_lower f \<in> set (map py_lower custom_fields) then [cim_field] else [])
                 get_field_aliases)"

section \<open>The specification's wording, and auxiliary notions for the proofs\<close>

text \<open>
  The specification's \<open>suggestAliases\<close>, as it is worded: scan every source's custom-field
  keys, collect the canonical name of each key that matches ignoring case, and return the
  collected names without duplicates in first-seen order.
\<close>

definition spec_suggestAliases :: "(string \<times> (string \<times> string) list) list \<Rightarrow> string \<Rightarrow> string list" where
  "spec_suggestAliases tbl f =
     set_update []
       (concat (map (\<lambda>(source, mappings).
                       concat (map (\<lambda>(custom_field, cim_field).
                                      if py_lower custom_field = py_lower f then [cim_field] else [])
                                   mappings))
                    tbl))"

text \<open>Both functions read their argument through \<open>py_lower\<close> only.\<close>

definition suggest_low :: "string \<Rightarrow> string list" where
  "suggest_low l =
     concat (map (\<lambda>(cim_field, custom_fields).
                    if l \<in> set (map py_lower custom_fields) then [cim_field] else [])
                 get_field_aliases)"

definition spec_low :: "string \<Rightarrow> string list" where
  "spec_low l =
     set_update []
       (concat (map (\<lambda>(source, mappings).
                       concat (map (\<lambda>(custom_field, cim_field).
                                      if py_lower custom_field = l then [cim_field] else [])
                                   mappings))
                    CIM_FIELD_MAPPINGS))"

definition lower_keys :: "string list" where
  "lower_keys =
     concat (map (\<lambda>(source, mappings). map (\<lambda>(k, c). py_lower k) mappings) CIM_FIELD_MAPPINGS)"

text \<open>The test and the entry of the loop in \<open>check_cim_compliance\<close>.\<close>

definition not_compliant :: "string \<Rightarrow> bool" where
  "not_compliant f \<longleftrightarrow> f \<notin> set ALL_CIM_FIELDS \<and> \<not> mapped_in CIM_FIELD_MAPPINGS f"

definition mk_violation :: "string \<Rightarrow> violation" where
  "mk_violation f =
     \<lparr>field = f, issue = ''Field is not CIM-compliant.'',
      suggestion = ''Map the field to a CIM-compliant field or use field aliases to conform to CIM.''\<rparr>"

text \<open>The character before the position reached after reading \<open>x\<close>.\<close>

definition lastp :: "char option \<Rightarrow> string \<Rightarrow> char option" where
  "lastp p x = (if x = [] then p else Some (last x))"

text \<open>A field name as the claims write it: a non-empty run of word characters.\<close>

definition is_field :: "string \<Rightarrow> bool" where
  "is_field x = (x \<noteq> [] \<and> list_all is_word x)"

text \<open>A property of every non-empty suffix of a text.\<close>

fun nsuf :: "(string \<Rightarrow> bool) \<Rightarrow> string \<Rightarrow> bool" where
  "nsuf P [] = True"
| "nsuf P (c # cs) = (P (c # cs) \<and> nsuf P cs)"
section \<open>Sets as lists, and the compliance check\<close>

lemma set_set_add: "set (set_add x xs) = insert x (set xs)"
  by (auto simp: set_add_def)

lemma distinct_set_add: "distinct xs \<Longrightarrow> distinct (set_add x xs)"
  by (simp add: set_add_def)

lemma set_set_update: "set (set_update xs ys) = set xs \<union> set ys"
  unfolding set_update_def
  by (induction ys arbitrary: xs) (auto simp: set_set_add)

lemma distinct_set_update: "distinct xs \<Longrightarrow> distinct (set_update xs ys)"
  unfolding set_update_def
  by (induction ys arbitrary: xs) (auto simp: distinct_set_add)

lemma set_all_fields_of:
  "set (all_fields_of u) = set (used u) \<union> set (created u) \<union> set (renamed u)"
  by (auto simp: all_fields_of_def set_set_update)

lemma distinct_all_fields_of: "distinct (all_fields_of u)"
  by (simp add: all_fields_of_def distinct_set_update)

lemma mapped_in_iff:
  "mapped_in tbl f \<longleftrightarrow> (\<exists>(source, mappings) \<in> set tbl. f \<in> fst ` set mappings)"
  by (induction tbl f rule: mapped_in.induct) auto

lemma check_loop_eq:
  "check_loop fs acc = acc @ map mk_violation (filter not_compliant fs)"
  by (induction fs arbitrary: acc) (auto simp: not_compliant_def mk_violation_def)

lemma count_in_distinct:
  "distinct fs \<Longrightarrow> length (filter (\<lambda>v. field v = F) (map mk_violation (filter P fs)))
     = (if F \<in> set fs \<and> P F then 1 else 0)"
  by (induction fs) (auto simp: mk_violation_def)

lemma fold_values_set:
  "set (fold (\<lambda>(source, source_fields) acc. set_update acc (map snd source_fields)) tbl acc)
     = set acc \<union> (\<Union>(source, m) \<in> set tbl. snd ` set m)"
proof (induction tbl arbitrary: acc)
  case Nil
  show ?case by simp
next
  case (Cons a tbl)
  obtain source m where a: "a = (source, m)" by (cases a)
  show ?case unfolding a by (simp add: Cons.IH set_set_update Un_assoc)
qed

lemma set_ALL_CIM_FIELDS:
  "set ALL_CIM_FIELDS = (\<Union>(source, m) \<in> set CIM_FIELD_MAPPINGS. snd ` set m)"
  by (simp add: ALL_CIM_FIELDS_def fold_values_set)

subsection \<open>No extractor raises\<close>

lemma length_groups_of: "length (groups_of n g) = n"
  by (simp add: groups_of_def)

lemma findall_tuples_length: "m \<in> set (findall_tuples ic r n s) \<Longrightarrow> length m = n"
  by (auto simp: findall_tuples_def length_groups_of)

lemma unpack2_ok: "length m = 2 \<Longrightarrow> \<exists>a b. unpack2 m = Inr (a, b)"
  by (cases m rule: unpack2.cases) auto

lemma unpack3_ok: "length m = 3 \<Longrightarrow> \<exists>a b c. unpack3 m = Inr (a, b, c)"
  by (cases m rule: unpack3.cases) auto

lemma rename_loop_total:
  "\<forall>m \<in> set ms. length m = 3 \<Longrightarrow> \<exists>fs. rename_loop ms acc = Inr fs"
proof (induction ms arbitrary: acc)
  case Nil
  show ?case by simp
next
  case (Cons m ms)
  from Cons.prems have "length m = 3" by simp
  then obtain a b c where "unpack3 m = Inr (a, b, c)" using unpack3_ok by blast
  moreover from Cons.prems have "\<forall>m \<in> set ms. length m = 3" by simp
  ultimately show ?case using Cons.IH by simp
qed

lemma lookup_loop_total:
  "\<forall>m \<in> set ms. length m = 3 \<Longrightarrow> \<exists>fs. lookup_loop ms acc = Inr fs"
proof (induction ms arbitrary: acc)
  case Nil
  show ?case by simp
next
  case (Cons m ms)
  from Cons.prems have "length m = 3" by simp
  then obtain a b c where "unpack3 m = Inr (a, b, c)" using unpack3_ok by blast
  moreover from Cons.prems have "\<forall>m \<in> set ms. length m = 3" by simp
  ultimately show ?case using Cons.IH by simp
qed

lemma re_match_length: "re_match ic r n s = Some gs \<Longrightarrow> length gs = n"
  by (auto simp: re_match_def length_groups_of split: option.splits)

lemma agg_loop_total: "\<exists>fs. agg_loop parts acc = Inr fs"
proof (induction parts arbitrary: acc)
  case Nil
  show ?case by simp
next
  case (Cons part parts)
  show ?case
  proof (cases "re_match True agg_alias_pattern 2 (py_strip part)")
    case None
    then show ?thesis using Cons.IH by (simp split: list.splits)
  next
    case (Some gs)
    then have "length gs = 2" by (rule re_match_length)
    then obtain a b where "unpack2 gs = Inr (a, b)" using unpack2_ok by blast
    with Some show ?thesis using Cons.IH by simp
  qed
qed

lemma stats_loop_total:
  "\<forall>m \<in> set ms. length m = 2 \<Longrightarrow> \<exists>fs. stats_loop ms acc = Inr fs"
proof (induction ms arbitrary: acc)
  case Nil
  show ?case by simp
next
  case (Cons m ms)
  from Cons.prems have "length m = 2" by simp
  then obtain a b where u: "unpack2 m = Inr (a, b)" using unpack2_ok by blast
  obtain fs where a: "agg_loop (py_split (CHR '','') a) acc = Inr fs"
    using agg_loop_total by blast
  from Cons.prems have "\<forall>m \<in> set ms. length m = 2" by simp
  then show ?case using Cons.IH u a by simp
qed

lemma extract_rename_total: "\<exists>fs. extract_fields_from_rename cmd = Inr fs"
  unfolding extract_fields_from_rename_def
  by (rule rename_loop_total) (simp add: findall_tuples_length)

lemma extract_stats_total: "\<exists>fs. extract_fields_from_stats cmd = Inr fs"
  unfolding extract_fields_from_stats_def
  by (rule stats_loop_total) (simp add: findall_tuples_length)

lemma extract_lookup_total: "\<exists>fs. extract_fields_from_lookup cmd = Inr fs"
  unfolding extract_fields_from_lookup_def
  by (rule lookup_loop_total) (simp add: findall_tuples_length)

lemma parse_command_total: "\<exists>u'. parse_command cmd u = Inr u'"
proof -
  obtain r where r: "extract_fields_from_rename cmd = Inr r" using extract_rename_total by blast
  obtain s where s: "extract_fields_from_stats cmd = Inr s" using extract_stats_total by blast
  obtain l where l: "extract_fields_from_lookup cmd = Inr l" using extract_lookup_total by blast
  show ?thesis
    unfolding parse_command_def using r s l by (simp add: Let_def split: option.splits)
qed

lemma parse_loop_total: "\<exists>u'. parse_loop cmds u = Inr u'"
proof (induction cmds arbitrary: u)
  case Nil
  show ?case by simp
next
  case (Cons cmd cmds)
  obtain u1 where "parse_command cmd u = Inr u1" using parse_command_total by blast
  then show ?case using Cons.IH by simp
qed

lemma parse_search_query_total: "\<exists>u. parse_search_query q = Inr u"
  by (simp add: parse_search_query_def parse_loop_total)


text \<open>
  Claim C10.  The violation list of \<open>check_cim_compliance\<close> depends on the query text only:
  two calls with different search names and the same query return the same result.
\<close>

theorem compliance_ignores_search_name:
  "check_cim_compliance n1 q = check_cim_compliance n2 q"
  by (simp add: check_cim_compliance_def)

text \<open>
  Claim C4.  The analysis of a query always yields a usage record and a violation list, and
  the number of violations whose field is \<open>F\<close> is one when \<open>F\<close> is in
  \<open>used \<union> created \<union> renamed\<close>, is not a target value of any mapping table (the canonical
  field set) and is not a custom-field key of any source mapping; it is zero otherwise.
\<close>

theorem violations_exactly_once:
  "\<exists>u vs. parse_search_query q = Inr u \<and> check_cim_compliance n q = Inr vs \<and>
     (\<forall>F. length (filter (\<lambda>v. field v = F) vs) =
        (if F \<in> set (used u) \<union> set (created u) \<union> set (renamed u)
            \<and> F \<notin> (\<Union>(source, m) \<in> set CIM_FIELD_MAPPINGS. snd ` set m)
            \<and> \<not> (\<exists>(source, m) \<in> set CIM_FIELD_MAPPINGS. F \<in> fst ` set m)
         then 1 else 0))"
proof -
  obtain u where u: "parse_search_query q = Inr u" using parse_search_query_total by blast
  let ?vs = "check_loop (all_fields_of u) []"
  have c: "check_cim_compliance n q = Inr ?vs" using u by (simp add: check_cim_compliance_def)
  have n: "not_compliant F \<longleftrightarrow>
        F \<notin> (\<Union>(source, m) \<in> set CIM_FIELD_MAPPINGS. snd ` set m)
          \<and> \<not> (\<exists>(source, m) \<in> set CIM_FIELD_MAPPINGS. F \<in> fst ` set m)" for F
    unfolding not_compliant_def mapped_in_iff set_ALL_CIM_FIELDS ..
  have "length (filter (\<lambda>v. field v = F) ?vs) =
        (if F \<in> set (all_fields_of u) \<and> not_compliant F then 1 else 0)" for F
    unfolding check_loop_eq append_Nil
    by (rule count_in_distinct [OF distinct_all_fields_of])
  then have "\<forall>F. length (filter (\<lambda>v. field v = F) ?vs) =
        (if F \<in> set (used u) \<union> set (created u) \<union> set (renamed u)
            \<and> F \<notin> (\<Union>(source, m) \<in> set CIM_FIELD_MAPPINGS. snd ` set m)
            \<and> \<not> (\<exists>(source, m) \<in> set CIM_FIELD_MAPPINGS. F \<in> fst ` set m)
         then 1 else 0)"
    unfolding set_all_fields_of n by blast
  with u c show ?thesis by blast
qed

theorem violations_exactly_once_witness:
  "\<exists>vs. check_cim_compliance ''n'' ''search foo=1 | stats count(x) as y by host | where foo=2'' = Inr vs
     \<and> length (filter (\<lambda>v. field v = ''foo'') vs) = 1
     \<and> length (filter (\<lambda>v. field v = ''host'') vs) = 0
     \<and> length (filter (\<lambda>v. field v = ''x'') vs) = 0"
proof -
  let ?q = "''search foo=1 | stats count(x) as y by host | where foo=2''"
  have p: "parse_search_query ?q = Inr \<lparr>used = [''foo'', ''y'', ''host''], created = [], renamed = []\<rparr>"
    by code_simp
  have a: "''foo'' \<notin> (\<Union>(source, m) \<in> set CIM_FIELD_MAPPINGS. snd ` set m)"
    by (simp add: CIM_FIELD_MAPPINGS_def)
  have b: "\<not> (\<exists>(source, m) \<in> set CIM_FIELD_MAPPINGS. ''foo'' \<in> fst ` set m)"
    by (simp add: CIM_FIELD_MAPPINGS_def)
  have c: "''host'' \<in> (\<Union>(source, m) \<in> set CIM_FIELD_MAPPINGS. snd ` set m)"
    by (simp add: CIM_FIELD_MAPPINGS_def)
  from violations_exactly_once [of ?q "''n''"] obtain u vs where
    u: "parse_search_query ?q = Inr u" and v: "check_cim_compliance ''n'' ?q = Inr vs" and
    n: "\<And>F. length (filter (\<lambda>v. field v = F) vs) =
        (if F \<in> set (used u) \<union> set (created u) \<union> set (renamed u)
            \<and> F \<notin> (\<Union>(source, m) \<in> set CIM_FIELD_MAPPINGS. snd ` set m)
            \<and> \<not> (\<exists>(source, m) \<in> set CIM_FIELD_MAPPINGS. F \<in> fst ` set m)
         then 1 else 0)"
    by blast
  from u p have u': "u = \<lparr>used = [''foo'', ''y'', ''host''], created = [], renamed = []\<rparr>" by simp
  have "length (filter (\<lambda>v. field v = ''foo'') vs) = 1" using n [of "''foo''"] a b by (simp add: u')
  moreover have "length (filter (\<lambda>v. field v = ''host'') vs) = 0" using n [of "''host''"] c by simp
  moreover have "length (filter (\<lambda>v. field v = ''x'') vs) = 0" using n [of "''x''"] by (simp add: u')
  ultimately show ?thesis using v by blast
qed



section \<open>The segmenter\<close>

lemma py_split_nonempty: "py_split c s \<noteq> []"
  by (induction s) (auto split: list.splits)

lemma py_split_append: "py_split c (a @ c # b) = py_split c a @ py_split c b"
proof (induction a)
  case Nil
  show ?case by simp
next
  case (Cons x a)
  obtain w ws where "py_split c a = w # ws" using py_split_nonempty [of c a] by (cases "py_split c a") auto
  with Cons show ?case by simp
qed

text \<open>
  Claim C1, as amended.  The segmenter splits at every \<open>|\<close>, inside brackets or not: the
  stages of \<open>a|b\<close> are the stages of \<open>a\<close> followed by the stages of \<open>b\<close>, whatever the
  two texts contain.
\<close>

theorem pipe_always_splits:
  "commands (a @ CHR ''|'' # b) = commands a @ commands b"
  by (simp add: commands_def py_split_append)

text \<open>
  The claim as stated fails: a pipe inside a bracketed subsearch makes a second stage, and
  the same query with the content of the subsearch removed has one stage.
\<close>

theorem bracket_pipe_counterexample:
  "length (commands ''search [a|b]'') = 2 \<and> length (commands ''search []'') = 1"
  by code_simp

section \<open>Alias suggestions\<close>

lemma low_agree_on_keys: "list_all (\<lambda>l. suggest_low l = spec_low l) lower_keys"
  by code_simp

lemma aliases_in_keys:
  "list_all (\<lambda>(cim_field, custom_fields). list_all (\<lambda>k. py_lower k \<in> set lower_keys) custom_fields) get_field_aliases"
  by code_simp

lemma aliases_distinct: "distinct (map fst get_field_aliases)"
  by code_simp

lemma suggest_low_out: "l \<notin> set lower_keys \<Longrightarrow> suggest_low l = []"
  using aliases_in_keys unfolding suggest_low_def
  by (fastforce simp: list_all_iff)

lemma set_update_Nil_iff: "set_update [] xs = [] \<longleftrightarrow> xs = []"
  using set_set_update [of "[]" xs] by (metis Un_empty_left set_empty)

lemma spec_low_out: "l \<notin> set lower_keys \<Longrightarrow> spec_low l = []"
  unfolding spec_low_def lower_keys_def set_update_Nil_iff
  by (fastforce)

lemma suggest_alias_low: "suggest_alias f = suggest_low (py_lower f)"
  by (simp add: suggest_alias_def suggest_low_def)

lemma spec_alias_low: "spec_suggestAliases CIM_FIELD_MAPPINGS f = spec_low (py_lower f)"
  by (simp add: spec_suggestAliases_def spec_low_def)

lemma suggest_alias_refines: "suggest_alias f = spec_suggestAliases CIM_FIELD_MAPPINGS f"
proof (cases "py_lower f \<in> set lower_keys")
  case True
  then show ?thesis
    using low_agree_on_keys by (simp add: suggest_alias_low spec_alias_low list_all_iff)
next
  case False
  then show ?thesis
    by (simp add: suggest_alias_low spec_alias_low suggest_low_out spec_low_out)
qed

lemma set_spec_suggestAliases:
  "set (spec_suggestAliases tbl f) =
     {cim. \<exists>source mappings k. (source, mappings) \<in> set tbl \<and> (k, cim) \<in> set mappings
              \<and> py_lower k = py_lower f}"
  unfolding spec_suggestAliases_def set_set_update
  by (auto split: if_splits)

lemma distinct_spec_suggestAliases: "distinct (spec_suggestAliases tbl f)"
  unfolding spec_suggestAliases_def by (rule distinct_set_update) simp

text \<open>
  Claim C5.  For every field name, \<open>suggest_alias\<close> returns what the specification's
  \<open>suggestAliases\<close> returns on the program's table: exactly the canonical names that have a
  custom-field key equal to the field name ignoring case in some source mapping, without
  duplicates, in first-seen order; and the empty list when no key of any source matches.
\<close>

theorem suggest_alias_complete:
  "suggest_alias f = spec_suggestAliases CIM_FIELD_MAPPINGS f
   \<and> set (suggest_alias f) =
       {cim. \<exists>source mappings k. (source, mappings) \<in> set CIM_FIELD_MAPPINGS
               \<and> (k, cim) \<in> set mappings \<and> py_lower k = py_lower f}
   \<and> distinct (suggest_alias f)
   \<and> ((\<forall>source mappings k cim. (source, mappings) \<in> set CIM_FIELD_MAPPINGS
          \<and> (k, cim) \<in> set mappings \<longrightarrow> py_lower k \<noteq> py_lower f)
        \<longrightarrow> suggest_alias f = [])"
proof -
  have s: "set (suggest_alias f) =
       {cim. \<exists>source mappings k. (source, mappings) \<in> set CIM_FIELD_MAPPINGS
               \<and> (k, cim) \<in> set mappings \<and> py_lower k = py_lower f}"
    unfolding suggest_alias_refines by (rule set_spec_suggestAliases)
  have e: "(\<forall>source mappings k cim. (source, mappings) \<in> set CIM_FIELD_MAPPINGS
          \<and> (k, cim) \<in> set mappings \<longrightarrow> py_lower k \<noteq> py_lower f)
        \<longrightarrow> suggest_alias f = []"
  proof
    assume "\<forall>source mappings k cim. (source, mappings) \<in> set CIM_FIELD_MAPPINGS
          \<and> (k, cim) \<in> set mappings \<longrightarrow> py_lower k \<noteq> py_lower f"
    then have "set (suggest_alias f) = {}" unfolding s by blast
    then show "suggest_alias f = []" by simp
  qed
  show ?thesis
    using suggest_alias_refines s e distinct_spec_suggestAliases [of CIM_FIELD_MAPPINGS f]
    by (simp only: simp_thms)
qed

theorem suggest_alias_complete_witness:
  "suggest_alias ''URL'' = [''uri''] \<and> spec_suggestAliases CIM_FIELD_MAPPINGS ''URL'' = [''uri'']
   \<and> suggest_alias ''nosuchfield'' = []"
proof -
  have a: "spec_suggestAliases CIM_FIELD_MAPPINGS ''URL'' = [''uri'']" by code_simp
  have b: "\<forall>source mappings k cim. (source, mappings) \<in> set CIM_FIELD_MAPPINGS
          \<and> (k, cim) \<in> set mappings \<longrightarrow> py_lower k \<noteq> py_lower ''nosuchfield''"
  proof -
    have "list_all (\<lambda>(source, mappings). list_all (\<lambda>(k, cim). py_lower k \<noteq> py_lower ''nosuchfield'') mappings)
            CIM_FIELD_MAPPINGS"
      by code_simp
    then show ?thesis by (fastforce simp: list_all_iff)
  qed
  have u: "suggest_alias ''URL'' = spec_suggestAliases CIM_FIELD_MAPPINGS ''URL''"
    using suggest_alias_complete [of "''URL''"] by blast
  have "(\<forall>source mappings k cim. (source, mappings) \<in> set CIM_FIELD_MAPPINGS
          \<and> (k, cim) \<in> set mappings \<longrightarrow> py_lower k \<noteq> py_lower ''nosuchfield'')
        \<longrightarrow> suggest_alias ''nosuchfield'' = []"
    using suggest_alias_complete [of "''nosuchfield''"] by blast
  with b have "suggest_alias ''nosuchfield'' = []" by blast
  with u a show ?thesis by simp
qed


section \<open>Matching the patterns on field names\<close>

text \<open>
  Facts about the character classes: a word character is neither white space nor a
  newline, and lowering a word character gives a word character.
\<close>

lemma upper_bit5:
  assumes "is_upper (Char b0 b1 b2 b3 b4 b5 b6 b7)" shows "\<not> b5"
  using assms
  by (cases b0; cases b1; cases b2; cases b3; cases b4; cases b5; cases b6; cases b7;
      simp add: is_upper_def code_def Let_def)

lemma code_lower: "is_upper c \<Longrightarrow> code (lower_char c) = code c + 32"
proof (cases c)
  case (Char b0 b1 b2 b3 b4 b5 b6 b7)
  assume u: "is_upper c"
  then have "\<not> b5" using upper_bit5 Char by blast
  then show ?thesis using u Char by (simp add: lower_char_def code_def)
qed

lemma word_not_nl: "is_word c \<Longrightarrow> c \<noteq> CHR 0x0A"
  by (auto simp: is_word_def Let_def code_def)

lemma word_not_space: "is_word c \<Longrightarrow> \<not> is_space c"
  unfolding is_word_def is_space_def Let_def by arith

lemma lower_word: "is_word c \<Longrightarrow> is_word (lower_char c)"
proof (cases "is_upper c")
  case True
  define n where "n = code c"
  define m where "m = code (lower_char c)"
  have m: "m = n + 32" unfolding m_def n_def using True by (rule code_lower)
  have "(65 \<le> n \<and> n \<le> 90) \<or> (192 \<le> n \<and> n \<le> 214) \<or> (216 \<le> n \<and> n \<le> 222)"
    using True unfolding is_upper_def Let_def n_def .
  then have "(97 \<le> m \<and> m \<le> 122) \<or> (216 \<le> m \<and> m \<le> 246) \<or> (248 \<le> m \<and> m \<le> 255)"
    using m by arith
  then show ?thesis unfolding is_word_def Let_def m_def by blast
next
  case False
  assume "is_word c"
  then show ?thesis using False by (simp add: lower_char_def)
qed


text \<open>
  The matcher on a text that is given in pieces: a literal reads itself, a greedy
  repetition reads a whole run, and a lazy group stops at the first position where the
  rest of the pattern matches.
\<close>

lemma not_word_lower: "\<not> is_word c \<Longrightarrow> lower_char c = c"
proof -
  assume "\<not> is_word c"
  then have "\<not> is_upper c" unfolding is_word_def is_upper_def Let_def by arith
  then show ?thesis by (simp add: lower_char_def)
qed

lemma lastp_Nil [simp]: "lastp p [] = p"
  by (simp add: lastp_def)

lemma lastp_Cons [simp]: "lastp p (c # cs) = lastp (Some c) cs"
  by (simp add: lastp_def)

lemma lastp_append [simp]: "lastp p (a @ b) = lastp (lastp p a) b"
  by (induction a arbitrary: p) simp_all

lemma nsuf_append: "nsuf P (a @ b) = (nsuf (\<lambda>v. P (v @ b)) a \<and> nsuf P b)"
  by (induction a) auto

lemma nsuf_hd:
  assumes "list_all Q x" and "\<And>c cs. Q c \<Longrightarrow> P (c # cs)"
  shows "nsuf P x"
  using assms by (induction x) auto

lemma nsuf_mono:
  assumes "nsuf P x" and "\<And>v. P v \<Longrightarrow> Q v"
  shows "nsuf Q x"
  using assms by (induction x) auto

lemma lazy_done: "k g p s = Some r \<Longrightarrow> lazy ic a g p s k = Some r"
  by (cases s) simp_all

lemma lazy_skip:
  assumes "list_all (atom_ok ic a) x" and "nsuf (\<lambda>v. \<forall>p'. k g p' (v @ s) = None) x"
  shows "lazy ic a g p (x @ s) k = lazy ic a g (lastp p x) s k"
  using assms by (induction x arbitrary: p) auto

lemma group_lazy:
  assumes "list_all (atom_ok ic a) A"
      and "nsuf (\<lambda>v. \<forall>g' p'. K g' p' (v @ B) = None) A"
      and "K ((n, A) # g) (lastp p A) B = Some r"
  shows "rmatch ic (Group n (LazyStar a)) g p (A @ B) K = Some r"
proof -
  let ?k = "\<lambda>g' p' s'. K ((n, take (length (A @ B) - length s') (A @ B)) # g') p' s'"
  have "nsuf (\<lambda>v. \<forall>p'. ?k g p' (v @ B) = None) A"
    using assms(2) by (rule nsuf_mono) simp
  then have "lazy ic a g p (A @ B) ?k = lazy ic a g (lastp p A) B ?k"
    using assms(1) by (simp add: lazy_skip)
  moreover have "lazy ic a g (lastp p A) B ?k = Some r"
    by (rule lazy_done) (simp add: assms(3))
  ultimately show ?thesis by simp
qed

lemma greedy_stop: "s = [] \<or> \<not> atom_ok ic a (hd s) \<Longrightarrow> greedy ic a g p s k = k g p s"
  by (cases s) auto

lemma greedy_all:
  assumes "list_all (atom_ok ic a) z" and "s = [] \<or> \<not> atom_ok ic a (hd s)"
      and "k g (lastp p z) s = Some r"
  shows "greedy ic a g p (z @ s) k = Some r"
  using assms by (induction z arbitrary: p) (auto simp: greedy_stop)

lemma group_star:
  assumes "list_all (atom_ok ic a) z" and "s = [] \<or> \<not> atom_ok ic a (hd s)"
      and "K ((n, z) # g) (lastp p z) s = Some r"
  shows "rmatch ic (Group n (Star a)) g p (z @ s) K = Some r"
  using assms by (simp add: greedy_all)

lemma group_plus:
  assumes "z \<noteq> []" and "list_all (atom_ok ic a) z" and "s = [] \<or> \<not> atom_ok ic a (hd s)"
      and "K ((n, z) # g) (lastp p z) s = Some r"
  shows "rmatch ic (Group n (Plus a)) g p (z @ s) K = Some r"
proof (cases z)
  case Nil
  then show ?thesis using assms(1) by simp
next
  case (Cons c cs)
  have "greedy ic a g (Some c) (cs @ s)
          (\<lambda>g' p' s'. K ((n, take (length (z @ s) - length s') (z @ s)) # g') p' s') = Some r"
    using assms Cons by (intro greedy_all) auto
  then show ?thesis using assms(2) Cons by simp
qed

lemma field_dot: "list_all is_word z \<Longrightarrow> list_all (atom_ok ic Dot) z"
  by (induction z) (auto simp: word_not_nl)

lemma field_hd: "is_field z \<Longrightarrow> is_word (hd z)"
  by (cases z) (auto simp: is_field_def)

lemma greedy_space_field:
  "is_field z \<Longrightarrow> greedy ic Space g p (z @ s) k = k g p (z @ s)"
  by (cases z) (auto simp: is_field_def word_not_space)

lemma lit_word_fail:
  assumes "list_all is_word y" and "list_all is_word w" and "py_lower y \<noteq> py_lower w"
      and "s = [] \<or> \<not> is_word (hd s)"
      and "\<And>g p c cs. is_word c \<Longrightarrow> k g p (c # cs) = None"
  shows "lit True w g p (y @ s) k = None"
  using assms(1,2,3)
proof (induction w arbitrary: y p)
  case Nil
  then show ?case using assms(5) by (cases y) (auto simp: py_lower_def)
next
  case (Cons d ds)
  show ?case
  proof (cases y)
    case Nil
    show ?thesis
    proof (cases s)
      case Nil
      then show ?thesis using \<open>y = []\<close> by simp
    next
      case (Cons h t)
      then have "\<not> is_word h" using assms(4) by simp
      then have "lower_char h = h" by (rule not_word_lower)
      moreover have "is_word (lower_char d)" using Cons.prems(2) by (simp add: lower_word)
      ultimately have "lower_char h \<noteq> lower_char d" using \<open>\<not> is_word h\<close> by metis
      then show ?thesis using \<open>y = []\<close> Cons by simp
    qed
  next
    case (Cons c cs)
    show ?thesis
    proof (cases "lower_char c = lower_char d")
      case True
      then have "py_lower cs \<noteq> py_lower ds" using Cons.prems(3) Cons by (simp add: py_lower_def)
      then have "lit True ds g (Some c) (cs @ s) k = None"
        using Cons.IH [of cs "Some c"] Cons.prems Cons by simp
      then show ?thesis using Cons True by simp
    next
      case False
      then show ?thesis using Cons by simp
    qed
  qed
qed

lemma is_space_Char:
  "is_space (Char b0 b1 b2 b3 b4 b5 b6 b7) =
     (let n = of_char (Char b0 b1 b2 b3 b4 b5 b6 b7) :: nat
      in (9 \<le> n \<and> n \<le> 13) \<or> (28 \<le> n \<and> n \<le> 32) \<or> n = 133 \<or> n = 160)"
  by (simp only: is_space_def code_def)

lemma is_upper_Char:
  "is_upper (Char b0 b1 b2 b3 b4 b5 b6 b7) =
     (let n = of_char (Char b0 b1 b2 b3 b4 b5 b6 b7) :: nat
      in (65 \<le> n \<and> n \<le> 90) \<or> (192 \<le> n \<and> n \<le> 214) \<or> (216 \<le> n \<and> n \<le> 222))"
  by (simp only: is_upper_def code_def)

lemma is_word_Char:
  "is_word (Char b0 b1 b2 b3 b4 b5 b6 b7) =
     (let n = of_char (Char b0 b1 b2 b3 b4 b5 b6 b7) :: nat
      in (48 \<le> n \<and> n \<le> 57) \<or> (65 \<le> n \<and> n \<le> 90) \<or> n = 95 \<or> (97 \<le> n \<and> n \<le> 122)
         \<or> n = 170 \<or> n = 178 \<or> n = 179 \<or> n = 181 \<or> n = 185 \<or> n = 186
         \<or> (188 \<le> n \<and> n \<le> 190) \<or> (192 \<le> n \<and> n \<le> 214) \<or> (216 \<le> n \<and> n \<le> 246)
         \<or> (248 \<le> n \<and> n \<le> 255))"
  by (simp only: is_word_def code_def)

lemma lower_char_Char:
  "lower_char (Char b0 b1 b2 b3 b4 b5 b6 b7) =
     (if is_upper (Char b0 b1 b2 b3 b4 b5 b6 b7) then Char b0 b1 b2 b3 b4 True b6 b7
      else Char b0 b1 b2 b3 b4 b5 b6 b7)"
  by (simp add: lower_char_def)

lemmas char_eval = is_space_Char is_upper_Char is_word_Char lower_char_Char

lemma lit_self: "lit ic w g p (w @ t) k = k g (lastp p w) t"
  by (induction w arbitrary: p) simp_all

lemma lastp_field: "is_field z \<Longrightarrow> lastp p z = Some (last z)"
  by (simp add: lastp_def is_field_def)

lemma field_hd_not_space: "is_field z \<Longrightarrow> \<not> is_space (hd z)"
  using field_hd word_not_space by blast

lemma seq_lit_ok:
  assumes "rmatch ic R g (lastp p w) t k = Some r"
  shows "rmatch ic (Seq (Lit w) R) g p (w @ t) k = Some r"
  using assms by (simp add: lit_self)

lemma seq_plus_ok:
  assumes "rmatch ic R g (lastp p u) t k = Some r"
      and "u \<noteq> []" and "list_all (atom_ok ic a) u" and "t = [] \<or> \<not> atom_ok ic a (hd t)"
  shows "rmatch ic (Seq (Plus a) R) g p (u @ t) k = Some r"
proof (cases u)
  case Nil
  then show ?thesis using assms(2) by simp
next
  case (Cons c cs)
  have "greedy ic a g (Some c) (cs @ t) (\<lambda>g' p' s'. rmatch ic R g' p' s' k) = Some r"
    using assms Cons by (intro greedy_all) auto
  then show ?thesis using assms(3) Cons by simp
qed

lemma seq_star_ok:
  assumes "rmatch ic R g (lastp p u) t k = Some r"
      and "list_all (atom_ok ic a) u" and "t = [] \<or> \<not> atom_ok ic a (hd t)"
  shows "rmatch ic (Seq (Star a) R) g p (u @ t) k = Some r"
  using assms by (simp add: greedy_all)

lemma seq_group_lazy_ok:
  assumes "rmatch ic R ((n, A) # g) (lastp p A) B k = Some r"
      and "list_all (atom_ok ic a) A"
      and "nsuf (\<lambda>v. \<forall>g' p'. rmatch ic R g' p' (v @ B) k = None) A"
  shows "rmatch ic (Seq (Group n (LazyStar a)) R) g p (A @ B) k = Some r"
proof -
  have "rmatch ic (Group n (LazyStar a)) g p (A @ B) (\<lambda>g' p' s'. rmatch ic R g' p' s' k) = Some r"
    using assms(2,3,1) by (rule group_lazy)
  then show ?thesis by simp
qed

lemma group_star_nil:
  assumes "list_all (atom_ok ic a) z"
  shows "rmatch ic (Group n (Star a)) g p z (\<lambda>g p' s'. Some (g, p', s')) = Some ((n, z) # g, lastp p z, [])"
  using group_star [of ic a z "[]" "\<lambda>g p' s'. Some (g, p', s')" n g p] assms by simp

lemma group_plus_nil:
  assumes "z \<noteq> []" and "list_all (atom_ok ic a) z"
  shows "rmatch ic (Group n (Plus a)) g p z (\<lambda>g p' s'. Some (g, p', s')) = Some ((n, z) # g, lastp p z, [])"
  using group_plus [of z ic a "[]" "\<lambda>g p' s'. Some (g, p', s')" n g p] assms by simp

lemma stats_match:
  assumes x: "is_field x" and y: "is_field y" and z: "is_field z" and nby: "py_lower y \<noteq> ''by''"
  shows "match_here True stats_pattern None (''stats count('' @ x @ '') as '' @ y @ '' by '' @ z)
         = Some ([(2, z), (1, ''count('' @ x @ '') as '' @ y)], Some (last z), [])"
proof -
  let ?k0 = "\<lambda>g p' s'. Some (g, p', s')"
  let ?R4 = "Group 2 (Star Dot)"
  let ?R3 = "Seq (Plus Space) (Seq (Lit ''by'') (Seq (Plus Space) ?R4))"
  let ?A = "''count('' @ x @ '') as '' @ y"
  let ?B = "'' '' @ ''by'' @ '' '' @ z"
  have dz: "list_all (atom_ok True Dot) z" using z by (simp add: is_field_def field_dot)
  have f4: "rmatch True ?R4 g p z ?k0 = Some ((2, z) # g, Some (last z), [])" for g p
    using group_star_nil [OF dz, of 2 g p] z by (simp only: lastp_field)
  have f3: "rmatch True ?R3 g p ?B ?k0 = Some ((2, z) # g, Some (last z), [])" for g p
    by (rule seq_plus_ok [OF seq_lit_ok [OF seq_plus_ok [OF f4]]])
       (use z in \<open>simp_all add: char_eval field_hd_not_space\<close>)
  have n: "nsuf (\<lambda>v. \<forall>g' p'. rmatch True ?R3 g' p' (v @ ?B) ?k0 = None) ?A"
    apply (simp add: nsuf_append char_eval greedy_space_field y)
    apply (intro conjI allI nsuf_hd [where Q = is_word] lit_word_fail)
    apply (use x y nby in \<open>auto simp: is_field_def word_not_space char_eval py_lower_def\<close>)
    done
  have dA: "list_all (atom_ok True Dot) ?A"
    using x y by (simp add: is_field_def field_dot)
  have f2: "rmatch True (Seq (Group 1 (LazyStar Dot)) ?R3) g p (?A @ ?B) ?k0
              = Some ((2, z) # (1, ?A) # g, Some (last z), [])" for g p
    by (rule seq_group_lazy_ok [OF f3 dA n])
  have f1: "rmatch True (Seq (Lit ''stats'') (Seq (Plus Space) (Seq (Group 1 (LazyStar Dot)) ?R3)))
              [] None (''stats'' @ '' '' @ ?A @ ?B) ?k0
              = Some ([(2, z), (1, ?A)], Some (last z), [])"
    by (rule seq_lit_ok [OF seq_plus_ok [OF f2]]) (simp_all add: char_eval)
  have pat: "stats_pattern = Seq (Lit ''stats'') (Seq (Plus Space) (Seq (Group 1 (LazyStar Dot)) ?R3))"
    by (simp add: stats_pattern_def)
  have eq: "''stats count('' @ x @ '') as '' @ y @ '' by '' @ z = ''stats'' @ '' '' @ ?A @ ?B"
    by simp
  show ?thesis unfolding match_here_def pat eq by (rule f1)
qed


text \<open>The extractors on a stage of the form \<open>stats count(x) as y by z\<close>.\<close>

lemma find_matches_nil: "match_here ic r p [] = None \<Longrightarrow> find_matches ic r p [] = []"
  by (subst find_matches.simps) simp

lemma find_matches_one:
  assumes "match_here ic r p s = Some (g, p', [])" and "s \<noteq> []" and "match_here ic r p' [] = None"
  shows "find_matches ic r p s = [g]"
  using assms by (subst find_matches.simps) (simp add: find_matches_nil)

lemma py_split_none: "c \<notin> set s \<Longrightarrow> py_split c s = [s]"
  by (induction s) auto

lemma dropWhile_hd: "xs \<noteq> [] \<Longrightarrow> \<not> P (hd xs) \<Longrightarrow> dropWhile P xs = xs"
  by (cases xs) auto

lemma py_strip_id:
  assumes "s \<noteq> []" and "\<not> is_space (hd s)" and "\<not> is_space (last s)"
  shows "py_strip s = s"
proof -
  have a: "dropWhile is_space s = s" using assms(1,2) by (rule dropWhile_hd)
  have "rev s \<noteq> []" and "\<not> is_space (hd (rev s))" using assms(1,3) by (simp_all add: hd_rev)
  then have "dropWhile is_space (rev s) = rev s" by (rule dropWhile_hd)
  then show ?thesis by (simp add: py_strip_def a)
qed

lemma list_all_wordc [simp]: "list_all (atom_ok ic Wordc) y = list_all is_word y"
  by (induction y) auto

lemma field_last: "is_field z \<Longrightarrow> is_word (last z)"
  by (simp add: is_field_def list_all_iff)

lemma py_strip_field: "is_field z \<Longrightarrow> py_strip z = z"
  by (rule py_strip_id) (auto simp: is_field_def field_hd field_last word_not_space)

lemma field_notin: "is_field x \<Longrightarrow> \<not> is_word c \<Longrightarrow> c \<notin> set x"
  by (auto simp: is_field_def list_all_iff)

lemma word_lower_neq: "is_word c \<Longrightarrow> \<not> is_word d \<Longrightarrow> lower_char c \<noteq> lower_char d"
  using lower_word not_word_lower by metis

lemma groups_of_1: "groups_of 1 g = [group_text g 1]"
  by (simp add: groups_of_def)

lemma groups_of_2: "groups_of 2 g = [group_text g 1, group_text g 2]"
  by (simp add: groups_of_def upt_conv_Cons numeral_2_eq_2)

lemma groups_of_3: "groups_of 3 g = [group_text g 1, group_text g 2, group_text g 3]"
  by (simp add: groups_of_def upt_conv_Cons numeral_2_eq_2 numeral_3_eq_3)

lemma agg_match:
  assumes x: "is_field x" and y: "is_field y"
  shows "re_match True agg_alias_pattern 2 (''count('' @ x @ '') as '' @ y) = Some [x, y]"
proof -
  let ?k0 = "\<lambda>g p' s'. Some (g, p', s')"
  let ?R9 = "Group 2 (Plus Wordc)"
  let ?R5 = "Seq (Lit '')'') (Seq (Star Space) (Seq (Lit ''as'') (Seq (Star Space) ?R9)))"
  let ?B = "'')'' @ '' '' @ ''as'' @ '' '' @ y"
  have wy: "list_all (atom_ok True Wordc) y" and ny: "y \<noteq> []" using y by (simp_all add: is_field_def)
  have f9: "rmatch True ?R9 g p y ?k0 = Some ((2, y) # g, Some (last y), [])" for g p
    using group_plus_nil [OF ny wy, of 2 g p] y by (simp only: lastp_field)
  have f5: "rmatch True ?R5 g p ?B ?k0 = Some ((2, y) # g, Some (last y), [])" for g p
    by (rule seq_lit_ok [OF seq_star_ok [OF seq_lit_ok [OF seq_star_ok [OF f9]]]])
       (use y in \<open>simp_all add: char_eval field_hd_not_space\<close>)
  have np: "lower_char c \<noteq> lower_char CHR '')''" if "is_word c" for c
    using that by (rule word_lower_neq) (simp add: char_eval)
  have n: "nsuf (\<lambda>v. \<forall>g' p'. rmatch True ?R5 g' p' (v @ ?B) ?k0 = None) x"
    by (rule nsuf_hd [where Q = is_word]) (use x np in \<open>auto simp: is_field_def\<close>)
  have dx: "list_all (atom_ok True Dot) x" using x by (simp add: is_field_def field_dot)
  have f4: "rmatch True (Seq (Group 1 (LazyStar Dot)) ?R5) g p (x @ ?B) ?k0
              = Some ((2, y) # (1, x) # g, Some (last y), [])" for g p
    by (rule seq_group_lazy_ok [OF f5 dx n])
  have f1: "rmatch True (Seq (Star Space) (Seq (Plus Wordc) (Seq (Lit ''('') (Seq (Group 1 (LazyStar Dot)) ?R5))))
              [] None ([] @ ''count'' @ ''('' @ x @ ?B) ?k0
              = Some ([(2, y), (1, x)], Some (last y), [])"
    by (rule seq_star_ok [OF seq_plus_ok [OF seq_lit_ok [OF f4]]]) (simp_all add: char_eval)
  have pat: "agg_alias_pattern
     = Seq (Star Space) (Seq (Plus Wordc) (Seq (Lit ''('') (Seq (Group 1 (LazyStar Dot)) ?R5)))"
    by (simp add: agg_alias_pattern_def)
  have eq: "''count('' @ x @ '') as '' @ y = [] @ ''count'' @ ''('' @ x @ ?B"
    by simp
  have "match_here True agg_alias_pattern None (''count('' @ x @ '') as '' @ y)
          = Some ([(2, y), (1, x)], Some (last y), [])"
    unfolding match_here_def pat eq by (rule f1)
  then show ?thesis by (simp add: re_match_def groups_of_2 group_text_def)
qed

lemma verb_match:
  assumes "is_field v" and "t = [] \<or> \<not> is_word (hd t)"
  shows "re_match False cmd_type_pattern 1 (v @ t) = Some [v]"
proof -
  have "match_here False cmd_type_pattern None (v @ t) = Some ([(1, v)], lastp None v, t)"
    unfolding match_here_def cmd_type_pattern_def
    by (rule group_plus) (use assms in \<open>auto simp: is_field_def\<close>)
  then show ?thesis
    by (simp add: re_match_def groups_of_def group_text_def)
qed

lemma agg_loop_alias:
  assumes "re_match True agg_alias_pattern 2 (py_strip part) = Some [u, alias]"
  shows "agg_loop [part] acc = Inr (acc @ [py_strip alias])"
  using assms by simp

lemma stats_loop_one:
  assumes "py_split CHR '','' a = as" and "agg_loop as [] = Inr fs"
      and "map py_strip (py_split CHR '','' b) = bs"
  shows "stats_loop [[a, b]] [] = Inr (fs @ bs)"
  using assms by simp

lemma stats_extract:
  assumes x: "is_field x" and y: "is_field y" and z: "is_field z" and nby: "py_lower y \<noteq> ''by''"
  shows "extract_fields_from_stats (''stats count('' @ x @ '') as '' @ y @ '' by '' @ z) = Inr [y, z]"
proof -
  let ?cmd = "''stats count('' @ x @ '') as '' @ y @ '' by '' @ z"
  let ?A = "''count('' @ x @ '') as '' @ y"
  have nc: "\<not> is_word CHR '',''" by (simp add: char_eval)
  have m: "match_here True stats_pattern None ?cmd = Some ([(2, z), (1, ?A)], Some (last z), [])"
    using assms by (rule stats_match)
  have e: "match_here True stats_pattern (Some (last z)) [] = None"
    by (simp add: match_here_def stats_pattern_def)
  have "find_matches True stats_pattern None ?cmd = [[(2, z), (1, ?A)]]"
    using m _ e by (rule find_matches_one) simp
  then have t: "findall_tuples True stats_pattern 2 ?cmd = [[?A, z]]"
    by (simp add: findall_tuples_def groups_of_2 group_text_def)
  have sA: "py_split CHR '','' ?A = [?A]"
    by (rule py_split_none) (use x y nc in \<open>auto dest: field_notin\<close>)
  have sz: "py_split CHR '','' z = [z]"
    by (rule py_split_none) (use z nc in \<open>auto dest: field_notin\<close>)
  have pA: "py_strip ?A = ?A"
    by (rule py_strip_id) (use y field_last [OF y] in \<open>auto simp: char_eval is_field_def dest: word_not_space\<close>)
  have a: "re_match True agg_alias_pattern 2 (py_strip ?A) = Some [x, y]"
    unfolding pA using x y by (rule agg_match)
  have al: "agg_loop [?A] [] = Inr ([] @ [py_strip y])" using a by (rule agg_loop_alias)
  have bz: "map py_strip (py_split CHR '','' z) = [z]"
    unfolding sz by (simp add: py_strip_field [OF z])
  have "stats_loop [[?A, z]] [] = Inr (([] @ [py_strip y]) @ [z])"
    using sA al bz by (rule stats_loop_one)
  then have "stats_loop [[?A, z]] [] = Inr [y, z]"
    unfolding py_strip_field [OF y] by (simp only: append.simps)
  then show ?thesis unfolding extract_fields_from_stats_def t .
qed

lemma commands_single:
  assumes "CHR ''|'' \<notin> set s" and "py_strip s = s" and "s \<noteq> []"
  shows "commands s = [s]"
  using assms by (simp add: commands_def py_split_none)

lemma parse_command_stats:
  assumes "re_match False cmd_type_pattern 1 cmd = Some [v]" and "py_lower v = ''stats''"
      and "extract_fields_from_stats cmd = Inr fs"
  shows "parse_command cmd u = Inr (u\<lparr>used := set_update (used u) fs\<rparr>)"
  using assms by (simp add: parse_command_def)

lemma parse_query_single:
  assumes "commands q = [cmd]" and "parse_command cmd empty_usage = Inr u"
  shows "parse_search_query q = Inr u"
  using assms by (simp add: parse_search_query_def)

section \<open>What each verb contributes\<close>

text \<open>
  Claim C2, as amended.  For every stage \<open>stats count(x) as y by z\<close> in which \<open>x\<close>, \<open>y\<close> and
  \<open>z\<close> are field names (non-empty runs of word characters) and the alias \<open>y\<close> is not the
  word \<open>by\<close> in any letter case, the analysis puts the alias \<open>y\<close> and the by-field \<open>z\<close> into
  \<open>used\<close> and nothing else anywhere: \<open>created\<close> and \<open>renamed\<close> are empty, and the inner field
  \<open>x\<close> is in no set unless it is \<open>y\<close> or \<open>z\<close> itself.
\<close>

theorem stats_alias_and_by_are_used:
  assumes "is_field x" and "is_field y" and "is_field z" and "py_lower y \<noteq> ''by''"
  shows "parse_search_query (''stats count('' @ x @ '') as '' @ y @ '' by '' @ z)
           = Inr \<lparr>used = (if y = z then [y] else [y, z]), created = [], renamed = []\<rparr>"
proof -
  let ?cmd = "''stats count('' @ x @ '') as '' @ y @ '' by '' @ z"
  have np: "\<not> is_word CHR ''|''" by (simp add: char_eval)
  have c: "commands ?cmd = [?cmd]"
  proof (rule commands_single)
    show "CHR ''|'' \<notin> set ?cmd" using assms np by (auto dest: field_notin)
    show "py_strip ?cmd = ?cmd"
      by (rule py_strip_id)
         (use assms(3) field_last [OF assms(3)] in \<open>auto simp: char_eval is_field_def dest: word_not_space\<close>)
    show "?cmd \<noteq> []" by simp
  qed
  have "re_match False cmd_type_pattern 1 (''stats'' @ '' count('' @ x @ '') as '' @ y @ '' by '' @ z)
          = Some [''stats'']"
    by (rule verb_match) (simp_all add: is_field_def char_eval)
  then have v: "re_match False cmd_type_pattern 1 ?cmd = Some [''stats'']" by simp
  have l: "py_lower ''stats'' = ''stats''" by (simp add: py_lower_def char_eval)
  have e: "extract_fields_from_stats ?cmd = Inr [y, z]" using assms by (rule stats_extract)
  have "parse_command ?cmd empty_usage
          = Inr (empty_usage\<lparr>used := set_update (used empty_usage) [y, z]\<rparr>)"
    using v l e by (rule parse_command_stats)
  moreover have "empty_usage\<lparr>used := set_update (used empty_usage) [y, z]\<rparr>
          = \<lparr>used = (if y = z then [y] else [y, z]), created = [], renamed = []\<rparr>"
    by (simp add: empty_usage_def set_update_def set_add_def)
  ultimately have "parse_command ?cmd empty_usage
          = Inr \<lparr>used = (if y = z then [y] else [y, z]), created = [], renamed = []\<rparr>"
    by (simp only:)
  with c show ?thesis by (rule parse_query_single)
qed

theorem stats_alias_and_by_are_used_witness:
  "is_field ''bytes'' \<and> is_field ''total'' \<and> is_field ''host'' \<and> py_lower ''total'' \<noteq> ''by''
   \<and> parse_search_query ''stats count(bytes) as total by host''
       = Inr \<lparr>used = [''total'', ''host''], created = [], renamed = []\<rparr>"
proof -
  have h1: "is_field ''bytes''" by code_simp
  have h2: "is_field ''total''" by code_simp
  have h3: "is_field ''host''" by code_simp
  have h4: "py_lower ''total'' \<noteq> ''by''" by code_simp
  from stats_alias_and_by_are_used [OF h1 h2 h3 h4]
  have "parse_search_query ''stats count(bytes) as total by host''
       = Inr \<lparr>used = [''total'', ''host''], created = [], renamed = []\<rparr>"
    by simp
  with h1 h2 h3 h4 show ?thesis by blast
qed

text \<open>
  The claim as stated fails: at \<open>stats count(x) as y by z\<close> the alias \<open>y\<close> is in \<open>used\<close>,
  not in \<open>created\<close> (which is empty), and the inner field \<open>x\<close> is in no set.
\<close>

theorem stats_alias_counterexample:
  "parse_search_query ''stats count(x) as y by z''
     = Inr \<lparr>used = [''y'', ''z''], created = [], renamed = []\<rparr>"
  by code_simp

text \<open>
  The alias must not be the word \<open>by\<close>: the stage \<open>stats count(x) as by by z\<close> is cut at the
  first \<open>by\<close>, and its \<open>used\<close> set is the inner field \<open>x\<close> and the text \<open>by z\<close>.
\<close>

lemma stats_alias_named_by:
  "parse_search_query ''stats count(x) as by by z''
     = Inr \<lparr>used = [''x'', ''by z''], created = [], renamed = []\<rparr>"
  by code_simp

text \<open>
  Claim C3.  The program breaks the claim: for \<open>lookup T in1, in2 OUTPUT out1, out2\<close> the
  output fields \<open>out1\<close> and \<open>out2\<close> are filed under \<open>used\<close> together with the input fields,
  and \<open>created\<close> stays empty, although the extractor is documented to return the fields
  \<open>used and created\<close> by a lookup, and the \<open>eval\<close> branch beside it files the fields a
  stage creates under \<open>created\<close>.
\<close>

theorem lookup_outputs_filed_as_used:
  "parse_search_query ''lookup T in1, in2 OUTPUT out1, out2''
     = Inr \<lparr>used = [''in1'', ''in2'', ''out1'', ''out2''], created = [], renamed = []\<rparr>
   \<and> extract_fields_from_lookup ''lookup T in1, in2 OUTPUT out1, out2''
     = Inr [''in1'', ''in2'', ''out1'', ''out2'']"
  by code_simp

text \<open>
  Claim C6.  The program breaks the claim on a list of pairs: for
  \<open>rename A as B, C as D\<close> the only renamed name it records is \<open>B,\<close> with the comma, so
  neither \<open>B\<close> nor \<open>D\<close> is in \<open>renamed\<close>.  The single pair \<open>rename A as B\<close> gives \<open>B\<close>.
\<close>

theorem rename_list_loses_names:
  "parse_search_query ''rename A as B, C as D''
     = Inr \<lparr>used = [], created = [], renamed = [''B,'']\<rparr>
   \<and> parse_search_query ''rename A as B''
     = Inr \<lparr>used = [], created = [], renamed = [''B'']\<rparr>"
  by code_simp





text \<open>
  Claim C7.  The program breaks the claim on both counts.  On a list of assignments only
  the first assigned field is found: for \<open>eval a = 1, b = 2\<close> the set \<open>created\<close> is \<open>{a}\<close>, and
  \<open>b\<close> is in no set.  And text of a right-hand expression is extracted as a field name when
  the letters \<open>eval\<close> and white space occur in it before an \<open>=\<close>: for the stage
  \<open>eval msg = "please eval this = now"\<close> the set \<open>created\<close> is \<open>{msg, this}\<close>.
\<close>

theorem eval_list_loses_fields:
  "parse_search_query ''eval a = 1, b = 2''
     = Inr \<lparr>used = [], created = [''a''], renamed = []\<rparr>
   \<and> parse_search_query (''eval msg = '' @ [CHR 0x22] @ ''please eval this = now'' @ [CHR 0x22])
     = Inr \<lparr>used = [], created = [''msg'', ''this''], renamed = []\<rparr>"
  by code_simp
end
